theory Spec2Isabelle
  imports Complex_Main
begin

section \<open>Data model of the flow builder (src/src/App.tsx)\<close>

text \<open>
  The component \<open>FlowBuilder\<close> keeps six pieces of React state: \<open>nodes\<close>, \<open>edges\<close>,
  \<open>selectedNodeId\<close>, \<open>error\<close>, \<open>level\<close> and \<open>successMessage\<close>.  Every handler is
  modelled as a function from the state it reads to the state it leaves behind.  A
  JavaScript \<open>null\<close> is \<open>None\<close>.

  A handler built by \<open>useCallback\<close> reads the state variables of the render that built
  it, while an update written \<open>setX(f)\<close> applies \<open>f\<close> to the stored value.  Where a
  handler does both with one variable, the value its render captured is an argument of
  its own, beside the state the call finds; a call made right after a render gets the
  stored value there.  The sessions below keep the last rendered state next to the
  stored one.

  The counter \<open>level\<close> and the array lengths are natural numbers, \<open>Date.now()\<close> is an
  integer; positions are layout data that no handler reads back, and are kept as reals.
\<close>

record position =
  pos_x :: real
  pos_y :: real

record TextNodeData =
  label :: string
  node_level :: nat

record node =
  node_id :: string
  node_type :: string
  node_position :: position
  node_data :: TextNodeData

record edge =
  edge_id :: string
  source :: string
  target :: string
  sourceHandle :: "string option"
  targetHandle :: "string option"

record connection =
  c_source :: "string option"
  c_target :: "string option"
  c_sourceHandle :: "string option"
  c_targetHandle :: "string option"

record flow_state =
  nodes :: "node list"
  edges :: "edge list"
  selectedNodeId :: "string option"
  error :: "string option"
  level :: nat
  successMessage :: "string option"

definition initial_state :: flow_state where
  "initial_state =
     \<lparr>nodes = [], edges = [], selectedNodeId = None, error = None, level = 1,
      successMessage = None\<rparr>"

subsection \<open>Template literals: numbers printed in decimal\<close>

definition digit_char :: "nat \<Rightarrow> char" where
  "digit_char d = ''0123456789'' ! d"

fun show_nat :: "nat \<Rightarrow> string" where
  "show_nat n = (if n < 10 then [digit_char n] else show_nat (n div 10) @ [digit_char (n mod 10)])"

declare show_nat.simps [simp del]

definition show_int :: "int \<Rightarrow> string" where
  "show_int i = (if i < 0 then CHR ''-'' # show_nat (nat (- i)) else show_nat (nat i))"

text \<open>
  \<open>prevLevel + 1\<close> on a JavaScript number: the counter starts at 1 and nothing else
  changes it, so it is an integer up to \<open>2^53\<close>, where adding 1 returns \<open>2^53\<close> again.
\<close>

definition js_inc :: "nat \<Rightarrow> nat" where
  "js_inc n = (if n < 2 ^ 53 then n + 1 else n)"

text \<open>The identity of a new node, \<^verbatim>\<open>`${Date.now()}-${level}`\<close>.\<close>

definition new_node_id :: "int \<Rightarrow> nat \<Rightarrow> string" where
  "new_node_id now lvl = show_int now @ ''-'' @ show_nat lvl"

subsection \<open>Adding nodes\<close>

text \<open>
  \<open>onAddTextNode label\<close> reads \<open>Date.now()\<close> and \<open>Math.random()\<close>; both are inputs of the
  model.  The new node takes its identity and position from \<open>level\<close>, the counter value
  the render captured; \<open>setNodes\<close> appends to the stored list and \<open>setLevel\<close> increments
  the stored counter.
\<close>

definition onAddTextNode :: "string \<Rightarrow> int \<Rightarrow> real \<Rightarrow> nat \<Rightarrow> flow_state \<Rightarrow> flow_state" where
  "onAddTextNode lbl now rnd capturedLevel s =
     (let nodeLevel = capturedLevel;
          newNode = \<lparr>node_id = new_node_id now nodeLevel,
                     node_type = ''textNode'',
                     node_position = \<lparr>pos_x = real (nodeLevel * 300), pos_y = rnd * 200\<rparr>,
                     node_data = \<lparr>label = lbl, node_level = nodeLevel\<rparr>\<rparr>
      in s\<lparr>nodes := nodes s @ [newNode], level := js_inc (level s)\<rparr>)"

text \<open>
  \<open>onDrop event\<close>: the drag data \<open>ty\<close>, the pointer position and the bounding rectangle
  of the canvas are the inputs.  An empty \<open>ty\<close> is falsy and the handler returns at once.
  The counter is read and incremented as in \<open>onAddTextNode\<close>.
\<close>

definition onDrop ::
  "string \<Rightarrow> int \<Rightarrow> real \<Rightarrow> real \<Rightarrow> real \<Rightarrow> real \<Rightarrow> nat \<Rightarrow> flow_state \<Rightarrow> flow_state" where
  "onDrop ty now clientX clientY bleft btop capturedLevel s =
     (if ty = [] then s
      else
        let pos = \<lparr>pos_x = clientX - bleft, pos_y = clientY - btop\<rparr>;
            newNode = \<lparr>node_id = new_node_id now capturedLevel,
                       node_type = ty,
                       node_position = pos,
                       node_data = \<lparr>label = ''New Text Message'', node_level = capturedLevel\<rparr>\<rparr>
        in s\<lparr>nodes := nodes s @ [newNode], level := js_inc (level s)\<rparr>)"

subsection \<open>Connecting nodes\<close>

text \<open>
  \<open>onConnect params\<close> tests whether some edge of \<open>edges\<close>, the list the render captured,
  already leaves \<open>params.source\<close>.  If none does, \<open>setEdges\<close> hands the stored edge list
  to \<open>addEdge\<close>, a function imported from the reactflow library; it is the parameter
  \<open>addE\<close> here.  Otherwise the handler sets the error message.  The timer that clears the
  message three seconds later is the separate event \<open>ErrorTimeout\<close> below.  \<open>params\<close> is
  the \<open>Connection\<close> the canvas passes: two endpoints and two handles, each a string or
  null.
\<close>

definition sourceAlreadyConnected :: "edge list \<Rightarrow> connection \<Rightarrow> bool" where
  "sourceAlreadyConnected es params = list_ex (\<lambda>e. Some (source e) = c_source params) es"

definition onConnect ::
  "(connection \<Rightarrow> edge list \<Rightarrow> edge list) \<Rightarrow> edge list \<Rightarrow> connection \<Rightarrow> flow_state
     \<Rightarrow> flow_state" where
  "onConnect addE capturedEdges params s =
     (if \<not> sourceAlreadyConnected capturedEdges params
      then s\<lparr>edges := addE params (edges s)\<rparr>
      else s\<lparr>error := Some ''Only one outgoing connection allowed per node.''\<rparr>)"

text \<open>
  The library function itself, as reactflow 11 defines it for a \<open>Connection\<close>: nothing
  changes when an endpoint is null or empty, or when an edge with the same endpoints
  and handles is stored; otherwise the edge is appended with a generated id.  It
  instantiates \<open>addE\<close> wherever a concrete run is evaluated.
\<close>

definition falsy :: "string option \<Rightarrow> bool" where
  "falsy h = (h = None \<or> h = Some [])"

definition or_empty :: "string option \<Rightarrow> string" where
  "or_empty h = (case h of None \<Rightarrow> [] | Some t \<Rightarrow> t)"

definition getEdgeId :: "string \<Rightarrow> string option \<Rightarrow> string \<Rightarrow> string option \<Rightarrow> string" where
  "getEdgeId src srcH tgt tgtH =
     ''reactflow__edge-'' @ src @ or_empty srcH @ ''-'' @ tgt @ or_empty tgtH"

definition connectionExists :: "edge \<Rightarrow> edge list \<Rightarrow> bool" where
  "connectionExists e es =
     list_ex (\<lambda>el. source el = source e \<and> target el = target e \<and>
                   (sourceHandle el = sourceHandle e \<or> (falsy (sourceHandle el) \<and> falsy (sourceHandle e))) \<and>
                   (targetHandle el = targetHandle e \<or> (falsy (targetHandle el) \<and> falsy (targetHandle e)))) es"

definition addEdge :: "connection \<Rightarrow> edge list \<Rightarrow> edge list" where
  "addEdge params es =
     (case c_source params of
        None \<Rightarrow> es
      | Some src \<Rightarrow>
          (case c_target params of
             None \<Rightarrow> es
           | Some tgt \<Rightarrow>
               if src = [] \<or> tgt = [] then es
               else
                 let e = \<lparr>edge_id = getEdgeId src (c_sourceHandle params) tgt (c_targetHandle params),
                          source = src, target = tgt,
                          sourceHandle = c_sourceHandle params,
                          targetHandle = c_targetHandle params\<rparr>
                 in if connectionExists e es then es else es @ [e]))"

subsection \<open>Selecting, editing, resetting\<close>

definition onNodeClick :: "node \<Rightarrow> flow_state \<Rightarrow> flow_state" where
  "onNodeClick n s = s\<lparr>selectedNodeId := Some (node_id n)\<rparr>"

definition backToNodesPanel :: "flow_state \<Rightarrow> flow_state" where
  "backToNodesPanel s = s\<lparr>selectedNodeId := None\<rparr>"

definition updateNodeLabel :: "string \<Rightarrow> flow_state \<Rightarrow> flow_state" where
  "updateNodeLabel lbl s =
     s\<lparr>nodes := map (\<lambda>n. if Some (node_id n) = selectedNodeId s
                          then n\<lparr>node_data := (node_data n)\<lparr>label := lbl\<rparr>\<rparr>
                          else n) (nodes s)\<rparr>"

definition handleReset :: "flow_state \<Rightarrow> flow_state" where
  "handleReset s =
     s\<lparr>nodes := [], edges := [], level := 1, selectedNodeId := None, error := None,
       successMessage := None\<rparr>"

subsection \<open>Saving: the validator\<close>

text \<open>
  The adjacency list is a JavaScript \<open>Map\<close>, which keeps its keys in insertion order:
  an association list.  \<open>graph_add\<close> is the body of \<open>edges.forEach\<close>.
\<close>

type_synonym graph = "(string \<times> string list) list"

definition graph_add :: "graph \<Rightarrow> edge \<Rightarrow> graph" where
  "graph_add g e =
     (let g1 = (if map_of g (source e) = None then g @ [(source e, [])] else g)
      in map (\<lambda>(k, ts). if k = source e then (k, ts @ [target e]) else (k, ts)) g1)"

definition buildGraph :: "edge list \<Rightarrow> graph" where
  "buildGraph es = foldl graph_add [] es"

text \<open>\<open>graph.get(current) || []\<close>\<close>

definition neighbors :: "graph \<Rightarrow> string \<Rightarrow> string list" where
  "neighbors g current = (case map_of g current of None \<Rightarrow> [] | Some ns \<Rightarrow> ns)"

text \<open>
  The traversal loop of \<open>handleSave\<close>.  \<open>queue.shift()\<close> takes the head, the node is
  marked when it is taken (not when it is pushed), and every neighbour that is not
  marked at that moment is pushed, so one node may sit in the queue several times.
\<close>

definition graph_targets :: "graph \<Rightarrow> string set" where
  "graph_targets g = (\<Union>(k, ts) \<in> set g. set ts)"

definition bfs_pending :: "graph \<times> string list \<times> string set \<Rightarrow> nat" where
  "bfs_pending = (\<lambda>(g, queue, visited). card ((set queue \<union> graph_targets g) - visited))"

definition bfs_stale :: "graph \<times> string list \<times> string set \<Rightarrow> nat" where
  "bfs_stale = (\<lambda>(g, queue, visited). length (filter (\<lambda>q. q \<in> visited) queue))"

function bfs :: "graph \<Rightarrow> string list \<Rightarrow> string set \<Rightarrow> string set" where
  "bfs g [] visited = visited"
| "bfs g (current # queue) visited =
     (let visited' = insert current visited
      in bfs g (queue @ filter (\<lambda>n. n \<notin> visited') (neighbors g current)) visited')"
  by pat_completeness auto

text \<open>
  The loop ends on every graph: taking an unmarked node shrinks the set of unmarked
  identities among the queue and the edge targets; taking a marked one leaves that set
  no larger and removes one marked entry from the queue, while only unmarked ones are
  pushed.
\<close>

termination bfs
proof (relation "measures [bfs_pending, bfs_stale]")
  show "wf (measures [bfs_pending, bfs_stale])" by simp
next
  fix g :: graph and current :: string and queue :: "string list"
    and visited visited' :: "string set"
  assume v': "visited' = insert current visited"
  let ?pushed = "filter (\<lambda>n. n \<notin> visited') (neighbors g current)"
  let ?A = "(set (current # queue) \<union> graph_targets g) - visited"
  let ?B = "(set (queue @ ?pushed) \<union> graph_targets g) - visited'"
  have nb: "set (neighbors g current) \<subseteq> graph_targets g"
  proof (cases "map_of g current")
    case None
    then show ?thesis by (simp add: neighbors_def)
  next
    case (Some ns)
    then have "(current, ns) \<in> set g" by (rule map_of_SomeD)
    then have "set ns \<subseteq> graph_targets g" by (force simp: graph_targets_def)
    with Some show ?thesis by (simp add: neighbors_def)
  qed
  have fin: "finite ?A" by (auto simp: graph_targets_def)
  have sub: "?B \<subseteq> ?A - {current}" using nb v' by auto
  show "((g, queue @ ?pushed, visited'), (g, current # queue, visited))
          \<in> measures [bfs_pending, bfs_stale]"
  proof (cases "current \<in> visited")
    case False
    then have "current \<in> ?A" by simp
    with sub have "?B \<subset> ?A" by blast
    with fin have "card ?B < card ?A" by (rule psubset_card_mono)
    then show ?thesis by (simp add: bfs_pending_def)
  next
    case True
    from sub have "?B \<subseteq> ?A" by blast
    with fin have le: "card ?B \<le> card ?A" by (rule card_mono)
    have "filter (\<lambda>q. q \<in> visited') ?pushed = []"
      by (simp add: filter_empty_conv)
    then have "bfs_stale (g, queue @ ?pushed, visited') < bfs_stale (g, current # queue, visited)"
      using True v' by (simp add: bfs_stale_def insert_absorb)
    with le show ?thesis by (auto simp: bfs_pending_def)
  qed
qed

text \<open>
  \<open>handleSave\<close>.  \<open>!rootNode\<close> is true when \<open>find\<close> returned \<open>undefined\<close> and also when it
  returned the empty string.  The branches that report an error leave
  \<open>successMessage\<close> as it was.
\<close>

definition savedMessage :: string where
  "savedMessage = ''Flow saved successfully!''"

definition noRootMessage :: string where
  "noRootMessage = ''Cannot save Flow: No root node found.''"

definition disconnectedMessage :: "nat \<Rightarrow> string" where
  "disconnectedMessage n =
     ''Cannot save Flow: '' @ show_nat n @ '' node(s) are not connected to the main flow.''"

definition handleSave :: "flow_state \<Rightarrow> flow_state" where
  "handleSave s =
     (if length (nodes s) \<le> 1
      then s\<lparr>error := None, successMessage := Some savedMessage\<rparr>
      else
        let graph = buildGraph (edges s);
            allNodeIds = map node_id (nodes s);
            targetNodeIds = map target (edges s);
            rootNode = find (\<lambda>i. i \<notin> set targetNodeIds) allNodeIds
        in case rootNode of
             None \<Rightarrow> s\<lparr>error := Some noRootMessage\<rparr>
           | Some r \<Rightarrow>
               if r = [] then s\<lparr>error := Some noRootMessage\<rparr>
               else
                 let visited = bfs graph [r] {};
                     disconnectedNodes = filter (\<lambda>i. i \<notin> visited) allNodeIds
                 in if length disconnectedNodes > 0
                    then s\<lparr>error := Some (disconnectedMessage (length disconnectedNodes))\<rparr>
                    else s\<lparr>error := None, successMessage := Some savedMessage\<rparr>)"

section \<open>The standalone helper (src/src/utils/validators.ts)\<close>

definition validateFlow :: "node list \<Rightarrow> edge list \<Rightarrow> bool" where
  "validateFlow ns es =
     (let targetNodeIds = set (map target es);
          isolatedNodes = filter (\<lambda>n. node_id n \<notin> targetNodeIds) ns
      in length isolatedNodes \<le> 1)"

section \<open>Removal\<close>

text \<open>
  Modelled from the spec: \<open>removeNode\<close> and \<open>removeEdge\<close>.  App.tsx has no handler that
  removes a node or an edge (it passes the library's change handlers to the canvas
  unchanged); the specification describes the operations: \<open>removeNode(id)\<close> fails
  with \<open>NotFound\<close> if the node is absent and otherwise removes it together with every
  edge that has it as source or target; \<open>removeEdge(sourceId, targetId)\<close> fails with
  \<open>NotFound\<close> if there is no such edge and otherwise removes it.
\<close>

datatype engine_error = NotFound

definition removeNode :: "string \<Rightarrow> flow_state \<Rightarrow> engine_error + flow_state" where
  "removeNode i s =
     (if i \<notin> set (map node_id (nodes s)) then Inl NotFound
      else Inr (s\<lparr>nodes := filter (\<lambda>n. node_id n \<noteq> i) (nodes s),
                  edges := filter (\<lambda>e. source e \<noteq> i \<and> target e \<noteq> i) (edges s)\<rparr>))"

definition removeEdge :: "string \<Rightarrow> string \<Rightarrow> flow_state \<Rightarrow> engine_error + flow_state" where
  "removeEdge src tgt s =
     (if \<not> list_ex (\<lambda>e. source e = src \<and> target e = tgt) (edges s) then Inl NotFound
      else Inr (s\<lparr>edges := filter (\<lambda>e. \<not> (source e = src \<and> target e = tgt)) (edges s)\<rparr>))"

section \<open>Editing sessions\<close>

text \<open>
  A session keeps the stored state and the state of the last render, whose values the
  handlers captured.  Its events carry the inputs a handler reads from outside the
  state; \<open>Render\<close> is React rendering the stored state again.  \<open>updateNodeLabel\<close> reads the
  captured \<open>selectedNodeId\<close> and \<open>handleSave\<close> the captured \<open>nodes\<close> and \<open>edges\<close>; the other
  handlers take what they capture as an argument.  The two timers started by
  \<open>onConnect\<close> and \<open>handleSave\<close> fire as events of their own; a failed removal leaves the
  state as it is.
\<close>

record session_state =
  live :: flow_state
  rendered :: flow_state

datatype flow_event =
    AddTextNode string int real
  | Drop string int real real real real
  | Connect connection
  | NodeClick node
  | Back
  | UpdateNodeLabel string
  | Reset
  | Save
  | ErrorTimeout
  | SuccessTimeout
  | RemoveNode string
  | RemoveEdge string string
  | Render

fun handle :: "(connection \<Rightarrow> edge list \<Rightarrow> edge list) \<Rightarrow> flow_state \<Rightarrow> flow_state \<Rightarrow> flow_event
    \<Rightarrow> flow_state" where
  "handle addE r s (AddTextNode lbl now rnd) = onAddTextNode lbl now rnd (level r) s"
| "handle addE r s (Drop ty now cx cy bl bt) = onDrop ty now cx cy bl bt (level r) s"
| "handle addE r s (Connect params) = onConnect addE (edges r) params s"
| "handle addE r s (NodeClick n) = onNodeClick n s"
| "handle addE r s Back = backToNodesPanel s"
| "handle addE r s (UpdateNodeLabel lbl) =
     (updateNodeLabel lbl (s\<lparr>selectedNodeId := selectedNodeId r\<rparr>))
       \<lparr>selectedNodeId := selectedNodeId s\<rparr>"
| "handle addE r s Reset = handleReset s"
| "handle addE r s Save =
     (handleSave (s\<lparr>nodes := nodes r, edges := edges r\<rparr>))\<lparr>nodes := nodes s, edges := edges s\<rparr>"
| "handle addE r s ErrorTimeout = s\<lparr>error := None\<rparr>"
| "handle addE r s SuccessTimeout = s\<lparr>successMessage := None\<rparr>"
| "handle addE r s (RemoveNode i) = (case removeNode i s of Inl _ \<Rightarrow> s | Inr s' \<Rightarrow> s')"
| "handle addE r s (RemoveEdge src tgt) = (case removeEdge src tgt s of Inl _ \<Rightarrow> s | Inr s' \<Rightarrow> s')"
| "handle addE r s Render = s"

fun fire ::
  "(connection \<Rightarrow> edge list \<Rightarrow> edge list) \<Rightarrow> session_state \<Rightarrow> flow_event \<Rightarrow> session_state" where
  "fire addE ss Render = ss\<lparr>rendered := live ss\<rparr>"
| "fire addE ss ev = ss\<lparr>live := handle addE (rendered ss) (live ss) ev\<rparr>"

definition run_session ::
  "(connection \<Rightarrow> edge list \<Rightarrow> edge list) \<Rightarrow> flow_event list \<Rightarrow> session_state" where
  "run_session addE evs =
     foldl (fire addE) \<lparr>live = initial_state, rendered = initial_state\<rparr> evs"

text \<open>The stored state a session ends in.\<close>

definition run :: "(connection \<Rightarrow> edge list \<Rightarrow> edge list) \<Rightarrow> flow_event list \<Rightarrow> flow_state" where
  "run addE evs = live (run_session addE evs)"

text \<open>
  What the handlers assume of the library's \<open>addEdge\<close>: it returns the list it was given,
  or that list with one edge appended which leaves the source of the connection.
\<close>

definition addEdge_contract :: "(connection \<Rightarrow> edge list \<Rightarrow> edge list) \<Rightarrow> bool" where
  "addEdge_contract addE =
     (\<forall>params es. addE params es = es \<or>
        (\<exists>e. addE params es = es @ [e] \<and> c_source params = Some (source e)))"

section \<open>Notions used to state the properties\<close>

text \<open>The edges as a relation, and the identities reachable from \<open>r\<close> along them.\<close>

definition edge_rel :: "edge list \<Rightarrow> (string \<times> string) set" where
  "edge_rel es = (\<lambda>e. (source e, target e)) ` set es"

definition reachable_ids :: "edge list \<Rightarrow> string \<Rightarrow> string set" where
  "reachable_ids es r = {i. (r, i) \<in> (edge_rel es)\<^sup>*}"

text \<open>The identities of \<open>ids\<close>, in order, that are not reachable from \<open>r\<close>.\<close>

definition disconnected_from :: "edge list \<Rightarrow> string list \<Rightarrow> string \<Rightarrow> string list" where
  "disconnected_from es ids r = filter (\<lambda>i. i \<notin> reachable_ids es r) ids"

text \<open>The root candidates, in node-store order: the identities that are no edge's target.\<close>

definition rootCandidates :: "flow_state \<Rightarrow> string list" where
  "rootCandidates s = filter (\<lambda>i. i \<notin> set (map target (edges s))) (map node_id (nodes s))"

definition single_outgoing :: "edge list \<Rightarrow> bool" where
  "single_outgoing es = distinct (map source es)"

text \<open>The targets of the edges that leave \<open>c\<close>, in edge-store order.\<close>

definition successors :: "edge list \<Rightarrow> string \<Rightarrow> string list" where
  "successors es c = map target (filter (\<lambda>e. source e = c) es)"

definition nbr_rel :: "graph \<Rightarrow> (string \<times> string) set" where
  "nbr_rel g = {(a, b). b \<in> set (neighbors g a)}"

text \<open>
  Every stored identity was generated by \<open>new_node_id\<close> from a counter value below the
  current \<open>level\<close>.
\<close>

definition ids_generated :: "flow_state \<Rightarrow> bool" where
  "ids_generated s = (\<forall>n \<in> set (nodes s). \<exists>t l. l < level s \<and> node_id n = new_node_id t l)"

text \<open>The session in which a render follows every event.\<close>

definition render_each :: "flow_event list \<Rightarrow> flow_event list" where
  "render_each evs = concat (map (\<lambda>ev. [ev, Render]) evs)"

subsection \<open>Concrete graphs for the scenarios\<close>

definition mk_node :: "string \<Rightarrow> node" where
  "mk_node i = \<lparr>node_id = i, node_type = ''textNode'',
                node_position = \<lparr>pos_x = 0, pos_y = 0\<rparr>,
                node_data = \<lparr>label = [], node_level = 0\<rparr>\<rparr>"

definition mk_edge :: "string \<Rightarrow> string \<Rightarrow> edge" where
  "mk_edge a b = \<lparr>edge_id = getEdgeId a None b None, source = a, target = b,
                  sourceHandle = None, targetHandle = None\<rparr>"

definition mk_state :: "string list \<Rightarrow> (string \<times> string) list \<Rightarrow> flow_state" where
  "mk_state ids es =
     initial_state\<lparr>nodes := map mk_node ids, edges := map (\<lambda>(a, b). mk_edge a b) es\<rparr>"

definition mk_connection :: "string \<Rightarrow> string \<Rightarrow> connection" where
  "mk_connection a b =
     \<lparr>c_source = Some a, c_target = Some b, c_sourceHandle = None, c_targetHandle = None\<rparr>"

section \<open>The adjacency list and the traversal\<close>

lemma show_nat_digit: "n < 10 \<Longrightarrow> show_nat n = [digit_char n]"
  by (simp add: show_nat.simps)

lemma map_of_push_target:
  "map_of (map (\<lambda>(k, ts). if k = a then (k, ts @ [t]) else (k, ts)) g) c
     = map_option (\<lambda>ts. if c = a then ts @ [t] else ts) (map_of g c)"
  by (induction g) auto

lemma neighbors_graph_add:
  "neighbors (graph_add g e) c = neighbors g c @ (if source e = c then [target e] else [])"
proof (cases "map_of g (source e)")
  case None
  then show ?thesis
    by (auto simp: graph_add_def neighbors_def map_of_push_target map_add_def split: option.splits)
next
  case (Some ts)
  then show ?thesis
    by (auto simp: graph_add_def neighbors_def map_of_push_target split: option.splits)
qed

lemma neighbors_foldl_graph_add:
  "neighbors (foldl graph_add g es) c = neighbors g c @ successors es c"
  by (induction es arbitrary: g) (auto simp: neighbors_graph_add successors_def)

lemma neighbors_buildGraph: "neighbors (buildGraph es) c = successors es c"
  by (simp add: buildGraph_def neighbors_foldl_graph_add) (simp add: neighbors_def)

lemma nbr_rel_buildGraph: "nbr_rel (buildGraph es) = edge_rel es"
  by (auto simp: nbr_rel_def edge_rel_def neighbors_buildGraph successors_def)

text \<open>
  Once every neighbour of a marked node is marked or queued, whatever a marked node
  reaches is marked or reached from the queue.
\<close>

lemma closed_reach:
  assumes cl: "\<forall>v \<in> visited. \<forall>w \<in> set (neighbors g v). w \<in> visited \<or> w \<in> Q"
    and "(v, x) \<in> (nbr_rel g)\<^sup>*" and "v \<in> visited"
  shows "x \<in> visited \<or> x \<in> (nbr_rel g)\<^sup>* `` Q"
  using assms(2,3)
proof (induction rule: converse_rtrancl_induct)
  case base
  then show ?case by simp
next
  case (step a b)
  from step.hyps(1) have "b \<in> set (neighbors g a)" by (simp add: nbr_rel_def)
  with cl step.prems have "b \<in> visited \<or> b \<in> Q" by blast
  then show ?case
  proof
    assume "b \<in> visited"
    then show ?thesis by (rule step.IH)
  next
    assume "b \<in> Q"
    with step.hyps(2) show ?thesis by blast
  qed
qed

lemma bfs_visits:
  "\<forall>v \<in> visited. \<forall>w \<in> set (neighbors g v). w \<in> visited \<or> w \<in> set queue
   \<Longrightarrow> bfs g queue visited = visited \<union> (nbr_rel g)\<^sup>* `` set queue"
proof (induction g queue visited rule: bfs.induct)
  case (1 g visited)
  then show ?case by simp
next
  case (2 g current queue visited)
  let ?V = "insert current visited"
  let ?Q = "queue @ filter (\<lambda>n. n \<notin> ?V) (neighbors g current)"
  have cl': "\<forall>v \<in> ?V. \<forall>w \<in> set (neighbors g v). w \<in> ?V \<or> w \<in> set ?Q"
    using "2.prems" by auto
  then have IH: "bfs g ?Q ?V = ?V \<union> (nbr_rel g)\<^sup>* `` set ?Q"
    using "2.IH"[OF refl] by blast
  have "?V \<union> (nbr_rel g)\<^sup>* `` set ?Q = visited \<union> (nbr_rel g)\<^sup>* `` set (current # queue)"
  proof (intro equalityI subsetI)
    fix x assume "x \<in> ?V \<union> (nbr_rel g)\<^sup>* `` set ?Q"
    then consider "x = current" | "x \<in> visited" | "x \<in> (nbr_rel g)\<^sup>* `` set queue"
      | n where "n \<in> set (neighbors g current)" "(n, x) \<in> (nbr_rel g)\<^sup>*"
      by auto
    then show "x \<in> visited \<union> (nbr_rel g)\<^sup>* `` set (current # queue)"
    proof cases
      case 4
      then have "(current, n) \<in> nbr_rel g" by (simp add: nbr_rel_def)
      then have "(current, x) \<in> (nbr_rel g)\<^sup>*"
        using 4(2) by (rule converse_rtrancl_into_rtrancl)
      then show ?thesis by auto
    qed auto
  next
    fix x assume "x \<in> visited \<union> (nbr_rel g)\<^sup>* `` set (current # queue)"
    then consider "x \<in> visited" | "x \<in> (nbr_rel g)\<^sup>* `` set queue"
      | "(current, x) \<in> (nbr_rel g)\<^sup>*"
      by auto
    then show "x \<in> ?V \<union> (nbr_rel g)\<^sup>* `` set ?Q"
    proof cases
      case 3
      have "current \<in> ?V" by simp
      with closed_reach[OF cl' 3] show ?thesis by blast
    qed auto
  qed
  with IH show ?case by simp
qed

lemma bfs_buildGraph: "bfs (buildGraph es) [r] {} = reachable_ids es r"
  using bfs_visits[of "{}" "buildGraph es" "[r]"]
  by (auto simp: nbr_rel_buildGraph reachable_ids_def)

section \<open>Saving a graph of at most one node\<close>

text \<open>
  Claim C4.  Whenever the node store holds no node or a single one, \<open>handleSave\<close> clears
  the error and announces success, whatever the edge store holds.
\<close>

theorem save_trivial_valid:
  assumes "length (nodes s) \<le> 1"
  shows "handleSave (s\<lparr>edges := es\<rparr>)
           = s\<lparr>edges := es, error := None, successMessage := Some ''Flow saved successfully!''\<rparr>"
  using assms by (simp add: handleSave_def savedMessage_def)

theorem save_trivial_valid_witness:
  "length (nodes (mk_state [''N1''] [])) \<le> 1 \<and>
   handleSave ((mk_state [''N1''] [])\<lparr>edges := [mk_edge ''N1'' ''N1'', mk_edge ''N7'' ''N1'']\<rparr>)
     = (mk_state [''N1''] [])\<lparr>edges := [mk_edge ''N1'' ''N1'', mk_edge ''N7'' ''N1''],
         error := None, successMessage := Some ''Flow saved successfully!''\<rparr>"
  using save_trivial_valid [of "mk_state [''N1''] []" "[mk_edge ''N1'' ''N1'', mk_edge ''N7'' ''N1'']"]
  by (simp add: mk_state_def)

section \<open>Saving a graph without a root\<close>

text \<open>
  Claim C2.  With two or more nodes, if the identity of every node is the target of some
  edge, \<open>handleSave\<close> reports that no root node was found.  The witness is Scenario C:
  nodes N1 and N2 with the edges N1 to N2 and N2 to N1.
\<close>

theorem save_no_root:
  assumes "2 \<le> length (nodes s)"
    and "\<forall>n \<in> set (nodes s). node_id n \<in> target ` set (edges s)"
  shows "handleSave s = s\<lparr>error := Some ''Cannot save Flow: No root node found.''\<rparr>"
proof -
  have "find (\<lambda>i. i \<notin> set (map target (edges s))) (map node_id (nodes s)) = None"
    using assms(2) by (simp add: find_None_iff)
  with assms(1) show ?thesis by (simp add: handleSave_def noRootMessage_def Let_def)
qed

theorem save_no_root_witness:
  "2 \<le> length (nodes (mk_state [''N1'', ''N2''] [(''N1'', ''N2''), (''N2'', ''N1'')]))
   \<and> node_id ` set (nodes (mk_state [''N1'', ''N2''] [(''N1'', ''N2''), (''N2'', ''N1'')]))
        \<subseteq> target ` set (edges (mk_state [''N1'', ''N2''] [(''N1'', ''N2''), (''N2'', ''N1'')]))
   \<and> error (handleSave (mk_state [''N1'', ''N2''] [(''N1'', ''N2''), (''N2'', ''N1'')]))
        = Some ''Cannot save Flow: No root node found.''"
  using save_no_root [of "mk_state [''N1'', ''N2''] [(''N1'', ''N2''), (''N2'', ''N1'')]"]
  by (simp add: mk_state_def mk_node_def mk_edge_def)

section \<open>Reset\<close>

text \<open>
  Claim C8.  From every state, and so from the state any session has reached,
  \<open>handleReset\<close> leaves an empty node store, an empty edge store and the counter \<open>level\<close>
  at its initial value; the result is the initial state itself, with no error set.
\<close>

theorem reset_restores_initial:
  "nodes (handleReset s) = [] \<and> edges (handleReset s) = []
   \<and> level (handleReset s) = level initial_state
   \<and> error (handleReset s) = None
   \<and> handleReset s = initial_state
   \<and> handleReset (run addE evs) = initial_state"
  by (simp add: handleReset_def initial_state_def)

section \<open>Editing a label\<close>

text \<open>
  Claim C9.  \<open>updateNodeLabel c\<close> applied twice leaves the same state as applied once.
  It keeps the identity and the sequence index of every node, the counter and the edges,
  and every node that carries the selected identity has the content \<open>c\<close> afterwards.
\<close>

theorem edit_idempotent:
  "updateNodeLabel c (updateNodeLabel c s) = updateNodeLabel c s
   \<and> map node_id (nodes (updateNodeLabel c s)) = map node_id (nodes s)
   \<and> map (\<lambda>n. node_level (node_data n)) (nodes (updateNodeLabel c s))
       = map (\<lambda>n. node_level (node_data n)) (nodes s)
   \<and> level (updateNodeLabel c s) = level s
   \<and> edges (updateNodeLabel c s) = edges s
   \<and> selectedNodeId (updateNodeLabel c s) = selectedNodeId s
   \<and> (\<forall>n \<in> set (nodes (updateNodeLabel c s)).
         Some (node_id n) = selectedNodeId s \<longrightarrow> label (node_data n) = c)"
  by (auto simp: updateNodeLabel_def comp_def)

theorem edit_idempotent_witness:
  "updateNodeLabel ''hello''
      (updateNodeLabel ''hello'' (onNodeClick (mk_node ''N2'') (mk_state [''N1'', ''N2''] [])))
     = updateNodeLabel ''hello'' (onNodeClick (mk_node ''N2'') (mk_state [''N1'', ''N2''] []))
   \<and> map (\<lambda>n. label (node_data n))
         (nodes (updateNodeLabel ''hello'' (onNodeClick (mk_node ''N2'') (mk_state [''N1'', ''N2''] []))))
       = [[], ''hello'']"
  using edit_idempotent [of "''hello''" "onNodeClick (mk_node ''N2'') (mk_state [''N1'', ''N2''] [])"]
  by (simp add: updateNodeLabel_def onNodeClick_def mk_state_def mk_node_def)

section \<open>One outgoing edge per node\<close>

lemma handleSave_keeps_graph:
  "nodes (handleSave s) = nodes s \<and> edges (handleSave s) = edges s \<and> level (handleSave s) = level s"
  by (simp add: handleSave_def Let_def split: option.splits)

lemma addEdge_meets_contract: "addEdge_contract addEdge"
  by (auto simp: addEdge_contract_def addEdge_def Let_def split: option.splits)

lemma not_connected_iff:
  "sourceAlreadyConnected es params \<longleftrightarrow> (\<exists>a. c_source params = Some a \<and> a \<in> source ` set es)"
  unfolding sourceAlreadyConnected_def list_ex_iff by (metis imageE imageI)

text \<open>
  A call that finds a stored edge from the same source in the list it captured changes
  nothing but the error message.
\<close>

lemma onConnect_rejects:
  "sourceAlreadyConnected capturedEdges params
   \<Longrightarrow> onConnect addE capturedEdges params s
         = s\<lparr>error := Some ''Only one outgoing connection allowed per node.''\<rparr>"
  by (simp add: onConnect_def)

text \<open>
  A call made on the render of the stored state, so that the captured edge list is the
  stored one, keeps the sources of the stored edges distinct.
\<close>

lemma onConnect_rendered_single_outgoing:
  assumes "addEdge_contract addE" and "single_outgoing (edges s)"
  shows "single_outgoing (edges (onConnect addE (edges s) params s))"
proof (cases "sourceAlreadyConnected (edges s) params")
  case True
  with assms(2) show ?thesis by (simp add: onConnect_def)
next
  case False
  from assms(1) consider "addE params (edges s) = edges s"
    | e where "addE params (edges s) = edges s @ [e]" "c_source params = Some (source e)"
    unfolding addEdge_contract_def by blast
  then show ?thesis
  proof cases
    case 1
    with False assms(2) show ?thesis by (simp add: onConnect_def)
  next
    case 2
    with False have "source e \<notin> source ` set (edges s)" by (auto simp: not_connected_iff)
    with 2 False assms(2) show ?thesis by (simp add: onConnect_def single_outgoing_def)
  qed
qed

lemma handle_rendered_single_outgoing:
  assumes "addEdge_contract addE" and "single_outgoing (edges s)"
  shows "single_outgoing (edges (handle addE s s ev))"
proof (cases ev)
  case (Connect params)
  with assms show ?thesis by (simp add: onConnect_rendered_single_outgoing)
next
  case (RemoveNode i)
  with assms(2) show ?thesis
    by (simp add: removeNode_def single_outgoing_def distinct_map_filter)
next
  case (RemoveEdge a b)
  with assms(2) show ?thesis
    by (simp add: removeEdge_def single_outgoing_def distinct_map_filter)
qed (use assms(2) in \<open>simp_all add: onAddTextNode_def onDrop_def onNodeClick_def backToNodesPanel_def
      updateNodeLabel_def handleReset_def single_outgoing_def Let_def\<close>)

lemma foldl_fire_render_each:
  assumes "addEdge_contract addE"
  shows "rendered ss = live ss \<Longrightarrow> single_outgoing (edges (live ss))
   \<Longrightarrow> rendered (foldl (fire addE) ss (render_each evs)) = live (foldl (fire addE) ss (render_each evs))
       \<and> single_outgoing (edges (live (foldl (fire addE) ss (render_each evs))))"
proof (induction evs arbitrary: ss)
  case Nil
  then show ?case by (simp add: render_each_def)
next
  case (Cons ev evs)
  let ?ss = "fire addE (fire addE ss ev) Render"
  have r: "rendered ?ss = live ?ss" by simp
  have "live ?ss = handle addE (live ss) (live ss) ev"
    using Cons.prems(1) by (cases ev) simp_all
  then have "single_outgoing (edges (live ?ss))"
    using handle_rendered_single_outgoing[OF assms Cons.prems(2), of ev] by simp
  from Cons.IH[OF r this] show ?case by (simp add: render_each_def)
qed

text \<open>
  So the sources of the stored edges stay distinct over every session in which a render
  follows each event.
\<close>

lemma render_each_single_outgoing:
  "addEdge_contract addE \<Longrightarrow> single_outgoing (edges (run addE (render_each evs)))"
  unfolding run_def run_session_def
  using foldl_fire_render_each[of addE "\<lparr>live = initial_state, rendered = initial_state\<rparr>" evs]
  by (simp add: initial_state_def single_outgoing_def)


section \<open>Connecting identities that name no node\<close>

text \<open>
  Claim C5 says that a connect call with an endpoint that names no stored node fails with
  \<open>NotFound\<close> and creates no edge.  In the empty node store, connecting \<open>a\<close> to \<open>b\<close> sets no
  error and stores the edge.
\<close>

theorem connect_not_found_counterexample:
  "nodes initial_state = []
   \<and> error (onConnect addEdge (edges initial_state) (mk_connection ''a'' ''b'') initial_state) = None
   \<and> edges (onConnect addEdge (edges initial_state) (mk_connection ''a'' ''b'') initial_state)
       = [mk_edge ''a'' ''b'']"
  by (simp add: initial_state_def onConnect_def sourceAlreadyConnected_def addEdge_def
      mk_connection_def mk_edge_def connectionExists_def Let_def)

text \<open>
  Claim C5, amended.  \<open>onConnect\<close> never reads the node store: replacing the node store
  commutes with it.  When the source has no outgoing edge in the captured list it sets no
  error and hands the edge store to \<open>addEdge\<close>; on the render of the stored state and with
  the library's \<open>addEdge\<close>, a connection between two non-empty identities is appended
  whether or not they name stored nodes.
\<close>

theorem connect_ignores_node_store:
  "onConnect addE capturedEdges params (s\<lparr>nodes := ns\<rparr>)
     = (onConnect addE capturedEdges params s)\<lparr>nodes := ns\<rparr>
   \<and> (\<not> sourceAlreadyConnected capturedEdges params \<longrightarrow>
         onConnect addE capturedEdges params s = s\<lparr>edges := addE params (edges s)\<rparr>)
   \<and> (\<not> sourceAlreadyConnected (edges s) (mk_connection a b) \<and> a \<noteq> [] \<and> b \<noteq> [] \<longrightarrow>
         onConnect addEdge (edges s) (mk_connection a b) s = s\<lparr>edges := edges s @ [mk_edge a b]\<rparr>)"
  by (auto simp: onConnect_def addEdge_def mk_connection_def mk_edge_def connectionExists_def
      sourceAlreadyConnected_def list_ex_iff Let_def)

theorem connect_ignores_node_store_witness:
  "\<not> sourceAlreadyConnected (edges initial_state) (mk_connection ''a'' ''b'')
   \<and> onConnect addEdge (edges initial_state) (mk_connection ''a'' ''b'') initial_state
       = initial_state\<lparr>edges := [mk_edge ''a'' ''b'']\<rparr>"
proof -
  have free: "\<not> sourceAlreadyConnected (edges initial_state) (mk_connection ''a'' ''b'')"
    by (simp add: initial_state_def sourceAlreadyConnected_def)
  have ne: "''a'' \<noteq> [] \<and> ''b'' \<noteq> []" by simp
  have "onConnect addEdge (edges initial_state) (mk_connection ''a'' ''b'') initial_state
          = initial_state\<lparr>edges := edges initial_state @ [mk_edge ''a'' ''b'']\<rparr>"
    using connect_ignores_node_store [where addE = addEdge and s = initial_state
        and a = "''a''" and b = "''b''" and params = "mk_connection ''a'' ''b''" and ns = "[]"
        and capturedEdges = "[]"]
      free ne by blast
  with free show ?thesis by (simp add: initial_state_def)
qed

section \<open>The standalone helper validateFlow\<close>

text \<open>
  Claim C10.  \<open>validateFlow\<close> holds exactly when at most one position of the node list
  carries an identity that is no edge's target.  It accepts the two-node cycle, which
  \<open>handleSave\<close> rejects for lack of a root, and rejects the graph N1 to N3, N2 to N3,
  whose root candidates are N1 and N2.
\<close>

theorem validateFlow_criterion:
  "(validateFlow ns es \<longleftrightarrow> card {k. k < length ns \<and> node_id (ns ! k) \<notin> target ` set es} \<le> 1)
   \<and> validateFlow (map mk_node [''N1'', ''N2'']) [mk_edge ''N1'' ''N2'', mk_edge ''N2'' ''N1'']
   \<and> error (handleSave (mk_state [''N1'', ''N2''] [(''N1'', ''N2''), (''N2'', ''N1'')]))
        = Some ''Cannot save Flow: No root node found.''
   \<and> \<not> validateFlow (map mk_node [''N1'', ''N2'', ''N3'']) [mk_edge ''N1'' ''N3'', mk_edge ''N2'' ''N3'']
   \<and> rootCandidates (mk_state [''N1'', ''N2'', ''N3''] [(''N1'', ''N3''), (''N2'', ''N3'')]) = [''N1'', ''N2'']"
proof -
  have "validateFlow ns es \<longleftrightarrow> card {k. k < length ns \<and> node_id (ns ! k) \<notin> target ` set es} \<le> 1"
    by (simp add: validateFlow_def length_filter_conv_card)
  moreover have "validateFlow (map mk_node [''N1'', ''N2'']) [mk_edge ''N1'' ''N2'', mk_edge ''N2'' ''N1'']"
    by (simp add: validateFlow_def mk_node_def mk_edge_def)
  moreover have "error (handleSave (mk_state [''N1'', ''N2''] [(''N1'', ''N2''), (''N2'', ''N1'')]))
        = Some ''Cannot save Flow: No root node found.''"
    by (simp add: handleSave_def mk_state_def mk_node_def mk_edge_def noRootMessage_def Let_def)
  moreover have "\<not> validateFlow (map mk_node [''N1'', ''N2'', ''N3'']) [mk_edge ''N1'' ''N3'', mk_edge ''N2'' ''N3'']"
    by (simp add: validateFlow_def mk_node_def mk_edge_def)
  moreover have "rootCandidates (mk_state [''N1'', ''N2'', ''N3''] [(''N1'', ''N3''), (''N2'', ''N3'')]) = [''N1'', ''N2'']"
    by (simp add: rootCandidates_def mk_state_def mk_node_def mk_edge_def)
  ultimately show ?thesis by blast
qed

section \<open>Node identities\<close>

lemma digit_char_inj: "a < 10 \<Longrightarrow> b < 10 \<Longrightarrow> digit_char a = digit_char b \<Longrightarrow> a = b"
proof -
  assume "a < 10" "b < 10" "digit_char a = digit_char b"
  moreover have "distinct ''0123456789''" by simp
  ultimately show "a = b" by (simp add: digit_char_def nth_eq_iff_index_eq)
qed

lemma digit_char_not_dash: "d < 10 \<Longrightarrow> digit_char d \<noteq> CHR ''-''"
proof -
  assume "d < 10"
  then have "digit_char d \<in> set ''0123456789''"
    unfolding digit_char_def by (intro nth_mem) simp
  then show ?thesis by auto
qed

lemma show_nat_no_dash: "CHR ''-'' \<notin> set (show_nat n)"
proof (induction n rule: show_nat.induct)
  case (1 n)
  show ?case
  proof (cases "n < 10")
    case True
    then show ?thesis using digit_char_not_dash[of n] by (simp add: show_nat_digit)
  next
    case False
    have "n mod 10 < 10" by simp
    then have "digit_char (n mod 10) \<noteq> CHR ''-''" by (rule digit_char_not_dash)
    with False 1 show ?thesis by (subst show_nat.simps) auto
  qed
qed

lemma show_nat_nonempty: "show_nat n \<noteq> []"
  by (subst show_nat.simps) simp

lemma show_nat_inj: "show_nat a = show_nat b \<Longrightarrow> a = b"
proof (induction a arbitrary: b rule: show_nat.induct)
  case (1 a)
  show ?case
  proof (cases "a < 10")
    case True
    note a = this
    show ?thesis
    proof (cases "b < 10")
      case True
      with a "1.prems" show ?thesis by (simp add: show_nat_digit digit_char_inj)
    next
      case False
      then have "show_nat b = show_nat (b div 10) @ [digit_char (b mod 10)]"
        by (subst show_nat.simps) simp
      with a "1.prems" show_nat_nonempty[of "b div 10"] show ?thesis
        by (simp add: show_nat_digit)
    qed
  next
    case False
    note a = this
    then have ea: "show_nat a = show_nat (a div 10) @ [digit_char (a mod 10)]"
      by (subst show_nat.simps) simp
    show ?thesis
    proof (cases "b < 10")
      case True
      with ea "1.prems" show_nat_nonempty[of "a div 10"] show ?thesis
        by (simp add: show_nat_digit)
    next
      case False
      then have eb: "show_nat b = show_nat (b div 10) @ [digit_char (b mod 10)]"
        by (subst show_nat.simps) simp
      from ea eb "1.prems" have hd: "show_nat (a div 10) = show_nat (b div 10)"
        and tl: "digit_char (a mod 10) = digit_char (b mod 10)" by simp_all
      from "1.IH"[OF a hd] have "a div 10 = b div 10" .
      moreover from tl have "a mod 10 = b mod 10" by (intro digit_char_inj) simp_all
      ultimately show ?thesis by (metis div_mult_mod_eq)
    qed
  qed
qed

lemma after_last_dash:
  assumes "xs @ CHR ''-'' # a = ys @ CHR ''-'' # b"
    and "CHR ''-'' \<notin> set a" and "CHR ''-'' \<notin> set b"
  shows "a = b"
proof -
  have tw: "takeWhile (\<lambda>c. c \<noteq> CHR ''-'') (rev (zs @ CHR ''-'' # d)) = rev d"
    if "CHR ''-'' \<notin> set d" for zs d
  proof -
    have "takeWhile (\<lambda>c. c \<noteq> CHR ''-'') (rev d @ CHR ''-'' # rev zs)
            = rev d @ takeWhile (\<lambda>c. c \<noteq> CHR ''-'') (CHR ''-'' # rev zs)"
      using that by (intro takeWhile_append2) auto
    then show ?thesis by simp
  qed
  from assms(1) have "rev (xs @ CHR ''-'' # a) = rev (ys @ CHR ''-'' # b)" by simp
  then have "takeWhile (\<lambda>c. c \<noteq> CHR ''-'') (rev (xs @ CHR ''-'' # a))
             = takeWhile (\<lambda>c. c \<noteq> CHR ''-'') (rev (ys @ CHR ''-'' # b))" by (rule arg_cong)
  then have "rev a = rev b" by (simp only: tw[OF assms(2)] tw[OF assms(3)])
  then show ?thesis by simp
qed

lemma new_node_id_level_inj: "new_node_id t l = new_node_id t' l' \<Longrightarrow> l = l'"
proof -
  assume "new_node_id t l = new_node_id t' l'"
  then have "show_int t @ CHR ''-'' # show_nat l = show_int t' @ CHR ''-'' # show_nat l'"
    by (simp add: new_node_id_def)
  then have "show_nat l = show_nat l'"
    by (rule after_last_dash) (rule show_nat_no_dash)+
  then show ?thesis by (rule show_nat_inj)
qed

lemma new_node_id_nonempty: "new_node_id t l \<noteq> []"
  by (simp add: new_node_id_def)

lemma fresh_id:
  assumes "ids_generated s"
  shows "new_node_id now (level s) \<notin> set (map node_id (nodes s))"
proof
  assume "new_node_id now (level s) \<in> set (map node_id (nodes s))"
  then obtain n where "n \<in> set (nodes s)" "node_id n = new_node_id now (level s)" by auto
  with assms obtain t l where "l < level s" "new_node_id now (level s) = new_node_id t l"
    unfolding ids_generated_def by metis
  then show False using new_node_id_level_inj by blast
qed

lemma ids_generated_mono:
  assumes "ids_generated s" and "set (map node_id (nodes s')) \<subseteq> set (map node_id (nodes s))"
    and "level s \<le> level s'"
  shows "ids_generated s'"
  unfolding ids_generated_def
proof
  fix n assume "n \<in> set (nodes s')"
  with assms(2) obtain m where "m \<in> set (nodes s)" "node_id m = node_id n" by auto
  with assms(1) obtain t l where "l < level s" "node_id n = new_node_id t l"
    unfolding ids_generated_def by metis
  with assms(3) show "\<exists>t l. l < level s' \<and> node_id n = new_node_id t l"
    by (meson less_le_trans)
qed

lemma js_inc_le: "js_inc n \<le> Suc n"
  by (simp add: js_inc_def)

lemma ids_generated_append:
  assumes "ids_generated s" and "node_id n = new_node_id now (level s)" and "level s < 2 ^ 53"
  shows "ids_generated (s\<lparr>nodes := nodes s @ [n], level := js_inc (level s)\<rparr>)"
  unfolding ids_generated_def
proof
  fix m assume "m \<in> set (nodes (s\<lparr>nodes := nodes s @ [n], level := js_inc (level s)\<rparr>))"
  then consider "m \<in> set (nodes s)" | "m = n" by auto
  then show "\<exists>t l. l < level (s\<lparr>nodes := nodes s @ [n], level := js_inc (level s)\<rparr>)
                \<and> node_id m = new_node_id t l"
  proof cases
    case 1
    with assms(1) obtain t l where "l < level s" "node_id m = new_node_id t l"
      unfolding ids_generated_def by metis
    with assms(3) show ?thesis by (auto simp: js_inc_def intro: less_SucI)
  next
    case 2
    with assms(2,3) show ?thesis by (auto simp: js_inc_def)
  qed
qed

lemma append_keeps_ids:
  assumes "distinct (map node_id (nodes s))" and "ids_generated s"
    and "node_id n = new_node_id now (level s)" and "level s < 2 ^ 53"
  shows "distinct (map node_id (nodes (s\<lparr>nodes := nodes s @ [n], level := js_inc (level s)\<rparr>)))
         \<and> ids_generated (s\<lparr>nodes := nodes s @ [n], level := js_inc (level s)\<rparr>)"
  using assms(1,3) fresh_id[OF assms(2), of now] ids_generated_append[OF assms(2,3,4)] by simp

text \<open>
  An event handled on the render of the stored state, below the limit of the counter,
  keeps the stored identities distinct.
\<close>

lemma handle_rendered_keeps_ids:
  assumes "distinct (map node_id (nodes s))" and "ids_generated s" and "level s < 2 ^ 53"
  shows "distinct (map node_id (nodes (handle addE s s ev))) \<and> ids_generated (handle addE s s ev)"
proof (cases ev)
  case (AddTextNode lbl now rnd)
  let ?n = "\<lparr>node_id = new_node_id now (level s), node_type = ''textNode'',
             node_position = \<lparr>pos_x = real (level s * 300), pos_y = rnd * 200\<rparr>,
             node_data = \<lparr>label = lbl, node_level = level s\<rparr>\<rparr>"
  have "node_id ?n = new_node_id now (level s)" by simp
  from append_keeps_ids[OF assms(1,2) this assms(3)] AddTextNode show ?thesis
    by (simp add: onAddTextNode_def Let_def)
next
  case (Drop ty now cx cy bl bt)
  let ?n = "\<lparr>node_id = new_node_id now (level s), node_type = ty,
             node_position = \<lparr>pos_x = cx - bl, pos_y = cy - bt\<rparr>,
             node_data = \<lparr>label = ''New Text Message'', node_level = level s\<rparr>\<rparr>"
  have "node_id ?n = new_node_id now (level s)" by simp
  from append_keeps_ids[OF assms(1,2) this assms(3)] Drop assms(1,2) show ?thesis
    by (simp add: onDrop_def Let_def)
next
  case (Connect params)
  have "ids_generated (onConnect addE (edges s) params s)"
    using assms(2) by (rule ids_generated_mono) (simp_all add: onConnect_def)
  with Connect assms(1) show ?thesis by (simp add: onConnect_def)
next
  case (NodeClick n)
  have "ids_generated (onNodeClick n s)"
    using assms(2) by (rule ids_generated_mono) (simp_all add: onNodeClick_def)
  with NodeClick assms(1) show ?thesis by (simp add: onNodeClick_def)
next
  case Back
  have "ids_generated (backToNodesPanel s)"
    using assms(2) by (rule ids_generated_mono) (simp_all add: backToNodesPanel_def)
  with Back assms(1) show ?thesis by (simp add: backToNodesPanel_def)
next
  case (UpdateNodeLabel lbl)
  have same: "map node_id (nodes (handle addE s s (UpdateNodeLabel lbl))) = map node_id (nodes s)"
    by (simp add: updateNodeLabel_def comp_def)
  have lv: "level (handle addE s s (UpdateNodeLabel lbl)) = level s"
    by (simp add: updateNodeLabel_def)
  have sub: "set (map node_id (nodes (handle addE s s (UpdateNodeLabel lbl))))
               \<subseteq> set (map node_id (nodes s))"
    by (simp only: same subset_refl)
  have le: "level s \<le> level (handle addE s s (UpdateNodeLabel lbl))"
    by (simp only: lv le_refl)
  from assms(2) sub le have "ids_generated (handle addE s s (UpdateNodeLabel lbl))"
    by (rule ids_generated_mono)
  with UpdateNodeLabel assms(1) same show ?thesis by simp
next
  case Reset
  then show ?thesis by (simp add: handleReset_def ids_generated_def)
next
  case Save
  have "ids_generated (handle addE s s Save)"
    using assms(2) by (rule ids_generated_mono) (simp_all add: handleSave_keeps_graph)
  with Save assms(1) show ?thesis by simp
next
  case ErrorTimeout
  have "ids_generated (s\<lparr>error := None\<rparr>)"
    using assms(2) by (rule ids_generated_mono) simp_all
  with ErrorTimeout assms(1) show ?thesis by simp
next
  case SuccessTimeout
  have "ids_generated (s\<lparr>successMessage := None\<rparr>)"
    using assms(2) by (rule ids_generated_mono) simp_all
  with SuccessTimeout assms(1) show ?thesis by simp
next
  case (RemoveNode i)
  have "ids_generated (handle addE s s (RemoveNode i))"
    using assms(2) by (rule ids_generated_mono) (auto simp: removeNode_def)
  moreover have "distinct (map node_id (nodes (handle addE s s (RemoveNode i))))"
    using assms(1) by (simp add: removeNode_def distinct_map_filter)
  ultimately show ?thesis using RemoveNode by simp
next
  case (RemoveEdge a b)
  have "ids_generated (handle addE s s (RemoveEdge a b))"
    using assms(2) by (rule ids_generated_mono) (auto simp: removeEdge_def)
  moreover have "distinct (map node_id (nodes (handle addE s s (RemoveEdge a b))))"
    using assms(1) by (simp add: removeEdge_def)
  ultimately show ?thesis using RemoveEdge by simp
next
  case Render
  with assms(1,2) show ?thesis by simp
qed

lemma handle_level_le: "level (handle addE r s ev) \<le> Suc (level s)"
  by (cases ev)
    (simp_all add: onAddTextNode_def onDrop_def onConnect_def onNodeClick_def backToNodesPanel_def
      updateNodeLabel_def handleReset_def handleSave_keeps_graph removeNode_def removeEdge_def
      js_inc_le Let_def)

lemma foldl_fire_render_each_ids:
  "rendered ss = live ss \<Longrightarrow> distinct (map node_id (nodes (live ss))) \<Longrightarrow> ids_generated (live ss)
   \<Longrightarrow> level (live ss) + length evs \<le> 2 ^ 53
   \<Longrightarrow> distinct (map node_id (nodes (live (foldl (fire addE) ss (render_each evs)))))"
proof (induction evs arbitrary: ss)
  case Nil
  then show ?case by (simp add: render_each_def)
next
  case (Cons ev evs)
  let ?ss = "fire addE (fire addE ss ev) Render"
  have r: "rendered ?ss = live ?ss" by simp
  have l: "live ?ss = handle addE (live ss) (live ss) ev"
    using Cons.prems(1) by (cases ev) simp_all
  from Cons.prems(4) have below: "level (live ss) < 2 ^ 53" by simp
  from handle_rendered_keeps_ids[OF Cons.prems(2,3) below, of addE ev] l
  have d: "distinct (map node_id (nodes (live ?ss)))" and g: "ids_generated (live ?ss)"
    by simp_all
  have "level (live ?ss) \<le> Suc (level (live ss))" unfolding l by (rule handle_level_le)
  with Cons.prems(4) have b: "level (live ?ss) + length evs \<le> 2 ^ 53" by simp
  from Cons.IH[OF r d g b] show ?case by (simp add: render_each_def)
qed

text \<open>
  So the stored identities are pairwise distinct after every session of fewer than
  \<open>2^53\<close> events in which a render follows each event.
\<close>

lemma render_each_ids_distinct:
  assumes "length evs < 2 ^ 53"
  shows "distinct (map node_id (nodes (run addE (render_each evs))))"
  unfolding run_def run_session_def
proof (rule foldl_fire_render_each_ids)
  show "level (live \<lparr>live = initial_state, rendered = initial_state\<rparr>) + length evs \<le> 2 ^ 53"
    using assms by (simp add: initial_state_def)
qed (simp_all add: initial_state_def ids_generated_def)

text \<open>Whatever the captured counter, a stored identity is never the empty string.\<close>

lemma handle_ids_nonempty:
  assumes "[] \<notin> set (map node_id (nodes s))"
  shows "[] \<notin> set (map node_id (nodes (handle addE r s ev)))"
proof (cases ev)
  case (UpdateNodeLabel lbl)
  have "map node_id (nodes (handle addE r s (UpdateNodeLabel lbl))) = map node_id (nodes s)"
    by (simp add: updateNodeLabel_def comp_def)
  with UpdateNodeLabel assms show ?thesis by simp
next
  case (RemoveNode i)
  with assms show ?thesis by (auto simp: removeNode_def)
next
  case (RemoveEdge a b)
  with assms show ?thesis by (auto simp: removeEdge_def)
qed (use assms in \<open>auto simp: onAddTextNode_def onDrop_def onConnect_def onNodeClick_def
      backToNodesPanel_def handleReset_def new_node_id_nonempty[THEN not_sym] Let_def\<close>)

lemma fire_ids_nonempty:
  assumes "[] \<notin> set (map node_id (nodes (live ss)))" and "[] \<notin> set (map node_id (nodes (rendered ss)))"
  shows "[] \<notin> set (map node_id (nodes (live (fire addE ss ev))))
       \<and> [] \<notin> set (map node_id (nodes (rendered (fire addE ss ev))))"
  using assms handle_ids_nonempty[OF assms(1), of addE "rendered ss" ev] by (cases ev) simp_all

lemma foldl_fire_ids_nonempty:
  "[] \<notin> set (map node_id (nodes (live ss))) \<Longrightarrow> [] \<notin> set (map node_id (nodes (rendered ss)))
   \<Longrightarrow> [] \<notin> set (map node_id (nodes (live (foldl (fire addE) ss evs))))
     \<and> [] \<notin> set (map node_id (nodes (rendered (foldl (fire addE) ss evs))))"
proof (induction evs arbitrary: ss)
  case Nil
  then show ?case by simp
next
  case (Cons ev evs)
  from fire_ids_nonempty[OF Cons.prems, of addE ev] Cons.IH[of "fire addE ss ev"]
  show ?case by simp
qed

lemma run_ids_nonempty: "[] \<notin> set (map node_id (nodes (run addE evs)))"
  unfolding run_def run_session_def
  using foldl_fire_ids_nonempty[of "\<lparr>live = initial_state, rendered = initial_state\<rparr>" addE evs]
  by (simp add: initial_state_def)


section \<open>Saving a graph with a root\<close>

lemma find_filter: "find P xs = (case filter P xs of [] \<Rightarrow> None | x # _ \<Rightarrow> Some x)"
  by (induction xs) auto

lemma find_rootCandidates:
  "rootCandidates s = r # rest
   \<Longrightarrow> find (\<lambda>i. i \<notin> set (map target (edges s))) (map node_id (nodes s)) = Some r"
  by (simp add: find_filter rootCandidates_def)

lemma save_from_root:
  assumes "2 \<le> length (nodes s)" and "rootCandidates s = r # rest" and "r \<noteq> []"
  shows "handleSave s =
    (if disconnected_from (edges s) (map node_id (nodes s)) r = []
     then s\<lparr>error := None, successMessage := Some savedMessage\<rparr>
     else s\<lparr>error := Some (disconnectedMessage
                 (length (disconnected_from (edges s) (map node_id (nodes s)) r)))\<rparr>)"
proof -
  from assms(1) have big: "\<not> length (nodes s) \<le> 1" by simp
  show ?thesis
    unfolding handleSave_def Let_def find_rootCandidates[OF assms(2)] bfs_buildGraph
      disconnected_from_def[symmetric]
    using big assms(3) by simp
qed

lemma run_root_nonempty: "rootCandidates (run addE evs) = r # rest \<Longrightarrow> r \<noteq> []"
proof -
  assume "rootCandidates (run addE evs) = r # rest"
  then have "r \<in> set (rootCandidates (run addE evs))" by simp
  then have "r \<in> set (map node_id (nodes (run addE evs)))" by (simp add: rootCandidates_def)
  with run_ids_nonempty[of addE evs] show ?thesis by metis
qed

lemma bfs_scenario_B:
  "bfs (buildGraph (edges (mk_state [''N1'', ''N2'', ''N3''] [(''N1'', ''N2'')]))) [''N1''] {}
     = {''N1'', ''N2''}"
  by (simp add: mk_state_def mk_edge_def buildGraph_def graph_add_def neighbors_def insert_commute)

lemma bfs_scenario_A:
  "bfs (buildGraph (edges (mk_state [''N1'', ''N2'', ''N3''] [(''N1'', ''N2''), (''N2'', ''N3'')])))
      [''N1''] {} = {''N1'', ''N2'', ''N3''}"
  by (simp add: mk_state_def mk_edge_def buildGraph_def graph_add_def neighbors_def insert_commute)

text \<open>
  Claim C3 says that for every graph with two or more nodes and a root candidate the
  result carries the count and the identities of the unvisited nodes.  On Scenario B the
  only change \<open>handleSave\<close> makes is the error message, which holds the count 1 and no
  identity: the same message results when the isolated node is N4 instead of N3.  And
  where the first root candidate is the empty string, \<open>!rootNode\<close> holds and the result is
  the no-root message, with no traversal.
\<close>

theorem save_disconnected_ids_counterexample:
  "handleSave (mk_state [''N1'', ''N2'', ''N3''] [(''N1'', ''N2'')])
     = (mk_state [''N1'', ''N2'', ''N3''] [(''N1'', ''N2'')])
         \<lparr>error := Some ''Cannot save Flow: 1 node(s) are not connected to the main flow.''\<rparr>
   \<and> error (handleSave (mk_state [''N1'', ''N2'', ''N4''] [(''N1'', ''N2'')]))
       = error (handleSave (mk_state [''N1'', ''N2'', ''N3''] [(''N1'', ''N2'')]))
   \<and> successMessage (handleSave (mk_state [''N1'', ''N2'', ''N4''] [(''N1'', ''N2'')]))
       = successMessage (handleSave (mk_state [''N1'', ''N2'', ''N3''] [(''N1'', ''N2'')]))
   \<and> rootCandidates (mk_state [[], ''N2''] []) = [[], ''N2'']
   \<and> handleSave (mk_state [[], ''N2''] [])
       = (mk_state [[], ''N2''] [])\<lparr>error := Some ''Cannot save Flow: No root node found.''\<rparr>"
  by (simp add: handleSave_def mk_state_def mk_node_def mk_edge_def buildGraph_def graph_add_def
      neighbors_def disconnectedMessage_def noRootMessage_def show_nat_digit digit_char_def
      rootCandidates_def initial_state_def Let_def)

text \<open>
  Claim C3, amended.  For every graph with two or more nodes whose first root candidate
  \<open>r\<close> is a non-empty string, the loop of \<open>handleSave\<close> visits exactly the identities
  reachable from \<open>r\<close> along the edges, source to target.  If some node identity is not
  among them, the only change is the error message, which carries the number of such
  nodes; if all are, the error is cleared and success is announced.  The witness is
  Scenario B, then Scenario A.  Every identity \<open>new_node_id\<close> generates is non-empty
  (\<open>run_root_nonempty\<close>).
\<close>

theorem save_reports_unreached_count:
  assumes "2 \<le> length (nodes s)" and "rootCandidates s = r # rest" and "r \<noteq> []"
  shows "bfs (buildGraph (edges s)) [r] {} = reachable_ids (edges s) r
    \<and> (disconnected_from (edges s) (map node_id (nodes s)) r \<noteq> [] \<longrightarrow>
          handleSave s = s\<lparr>error := Some (''Cannot save Flow: ''
              @ show_nat (length (disconnected_from (edges s) (map node_id (nodes s)) r))
              @ '' node(s) are not connected to the main flow.'')\<rparr>)
    \<and> (disconnected_from (edges s) (map node_id (nodes s)) r = [] \<longrightarrow>
          handleSave s = s\<lparr>error := None, successMessage := Some ''Flow saved successfully!''\<rparr>)"
proof -
  have "bfs (buildGraph (edges s)) [r] {} = reachable_ids (edges s) r"
    by (rule bfs_buildGraph)
  moreover have "disconnected_from (edges s) (map node_id (nodes s)) r \<noteq> [] \<longrightarrow>
          handleSave s = s\<lparr>error := Some (''Cannot save Flow: ''
              @ show_nat (length (disconnected_from (edges s) (map node_id (nodes s)) r))
              @ '' node(s) are not connected to the main flow.'')\<rparr>"
    using save_from_root[OF assms] by (simp add: disconnectedMessage_def)
  moreover have "disconnected_from (edges s) (map node_id (nodes s)) r = [] \<longrightarrow>
          handleSave s = s\<lparr>error := None, successMessage := Some ''Flow saved successfully!''\<rparr>"
    using save_from_root[OF assms] by (simp add: savedMessage_def)
  ultimately show ?thesis by blast
qed

theorem save_reports_unreached_count_witness:
  "2 \<le> length (nodes (mk_state [''N1'', ''N2'', ''N3''] [(''N1'', ''N2'')]))
   \<and> rootCandidates (mk_state [''N1'', ''N2'', ''N3''] [(''N1'', ''N2'')]) = [''N1'', ''N3'']
   \<and> reachable_ids (edges (mk_state [''N1'', ''N2'', ''N3''] [(''N1'', ''N2'')])) ''N1'' = {''N1'', ''N2''}
   \<and> handleSave (mk_state [''N1'', ''N2'', ''N3''] [(''N1'', ''N2'')])
       = (mk_state [''N1'', ''N2'', ''N3''] [(''N1'', ''N2'')])
           \<lparr>error := Some ''Cannot save Flow: 1 node(s) are not connected to the main flow.''\<rparr>
   \<and> rootCandidates (mk_state [''N1'', ''N2'', ''N3''] [(''N1'', ''N2''), (''N2'', ''N3'')]) = [''N1'']
   \<and> handleSave (mk_state [''N1'', ''N2'', ''N3''] [(''N1'', ''N2''), (''N2'', ''N3'')])
       = (mk_state [''N1'', ''N2'', ''N3''] [(''N1'', ''N2''), (''N2'', ''N3'')])
           \<lparr>error := None, successMessage := Some ''Flow saved successfully!''\<rparr>"
proof -
  let ?s = "mk_state [''N1'', ''N2'', ''N3''] [(''N1'', ''N2'')]"
  have len: "2 \<le> length (nodes ?s)" by (simp add: mk_state_def)
  have rc: "rootCandidates ?s = [''N1'', ''N3'']"
    by (simp add: rootCandidates_def mk_state_def mk_node_def mk_edge_def)
  have ne: "''N1'' \<noteq> []" by simp
  note inst = save_reports_unreached_count[OF len rc ne]
  from inst have "bfs (buildGraph (edges ?s)) [''N1''] {} = reachable_ids (edges ?s) ''N1''"
    by (rule conjunct1)
  then have reach: "reachable_ids (edges ?s) ''N1'' = {''N1'', ''N2''}"
    by (simp only: bfs_scenario_B)
  have ids: "map node_id (nodes ?s) = [''N1'', ''N2'', ''N3'']"
    by (simp add: mk_state_def mk_node_def)
  have dis: "disconnected_from (edges ?s) (map node_id (nodes ?s)) ''N1'' = [''N3'']"
    unfolding disconnected_from_def reach ids by simp
  from inst have "disconnected_from (edges ?s) (map node_id (nodes ?s)) ''N1'' \<noteq> [] \<longrightarrow>
      handleSave ?s = ?s\<lparr>error := Some (''Cannot save Flow: ''
              @ show_nat (length (disconnected_from (edges ?s) (map node_id (nodes ?s)) ''N1''))
              @ '' node(s) are not connected to the main flow.'')\<rparr>"
    by blast
  then have saveB: "handleSave ?s
       = ?s\<lparr>error := Some ''Cannot save Flow: 1 node(s) are not connected to the main flow.''\<rparr>"
    unfolding dis by (simp add: show_nat_digit digit_char_def)
  let ?a = "mk_state [''N1'', ''N2'', ''N3''] [(''N1'', ''N2''), (''N2'', ''N3'')]"
  have lenA: "2 \<le> length (nodes ?a)" by (simp add: mk_state_def)
  have rcA: "rootCandidates ?a = [''N1'']"
    by (simp add: rootCandidates_def mk_state_def mk_node_def mk_edge_def)
  note instA = save_reports_unreached_count[OF lenA rcA ne]
  from instA have "bfs (buildGraph (edges ?a)) [''N1''] {} = reachable_ids (edges ?a) ''N1''"
    by (rule conjunct1)
  then have reachA: "reachable_ids (edges ?a) ''N1'' = {''N1'', ''N2'', ''N3''}"
    by (simp only: bfs_scenario_A)
  have idsA: "map node_id (nodes ?a) = [''N1'', ''N2'', ''N3'']"
    by (simp add: mk_state_def mk_node_def)
  have disA: "disconnected_from (edges ?a) (map node_id (nodes ?a)) ''N1'' = []"
    unfolding disconnected_from_def reachA idsA by simp
  from instA have "disconnected_from (edges ?a) (map node_id (nodes ?a)) ''N1'' = [] \<longrightarrow>
      handleSave ?a = ?a\<lparr>error := None, successMessage := Some ''Flow saved successfully!''\<rparr>"
    by blast
  with disA have saveA: "handleSave ?a
       = ?a\<lparr>error := None, successMessage := Some ''Flow saved successfully!''\<rparr>"
    by blast
  from len rc reach saveB rcA saveA show ?thesis by blast
qed

text \<open>
  What a render captures is the stored state of an earlier moment of the session, so the
  graph \<open>handleSave\<close> reads is always that of a session.
\<close>

lemma rendered_is_run: "\<exists>evs'. rendered (run_session addE evs) = run addE evs'"
proof (induction evs rule: rev_induct)
  case Nil
  have "rendered (run_session addE []) = run addE []" by (simp add: run_def run_session_def)
  then show ?case by blast
next
  case (snoc ev evs)
  show ?case
  proof (cases "ev = Render")
    case True
    then have "rendered (run_session addE (evs @ [ev])) = run addE evs"
      by (simp add: run_def run_session_def)
    then show ?thesis by blast
  next
    case False
    then have "rendered (run_session addE (evs @ [ev])) = rendered (run_session addE evs)"
      by (cases ev) (simp_all add: run_session_def)
    with snoc.IH show ?thesis by simp
  qed
qed

lemma session_two_roots:
  "run addEdge [AddTextNode ''a'' 5 0, Render, AddTextNode ''b'' 5 0, Render,
                AddTextNode ''c'' 5 0, Render, Connect (mk_connection ''5-2'' ''5-3'')]
     = initial_state
         \<lparr>nodes := [\<lparr>node_id = ''5-1'', node_type = ''textNode'',
                      node_position = \<lparr>pos_x = 300, pos_y = 0\<rparr>,
                      node_data = \<lparr>label = ''a'', node_level = 1\<rparr>\<rparr>,
                    \<lparr>node_id = ''5-2'', node_type = ''textNode'',
                      node_position = \<lparr>pos_x = 600, pos_y = 0\<rparr>,
                      node_data = \<lparr>label = ''b'', node_level = 2\<rparr>\<rparr>,
                    \<lparr>node_id = ''5-3'', node_type = ''textNode'',
                      node_position = \<lparr>pos_x = 900, pos_y = 0\<rparr>,
                      node_data = \<lparr>label = ''c'', node_level = 3\<rparr>\<rparr>],
           edges := [mk_edge ''5-2'' ''5-3''], level := 4\<rparr>"
  by (simp add: run_def run_session_def initial_state_def onAddTextNode_def onConnect_def
      sourceAlreadyConnected_def addEdge_def connectionExists_def mk_connection_def mk_edge_def
      new_node_id_def show_int_def show_nat_digit digit_char_def js_inc_def Let_def)

text \<open>
  Claim C7.  In every state \<open>s\<close> a session reaches that has two or more nodes and more than
  one root candidate, \<open>handleSave\<close> traverses from the first root candidate \<open>r\<close> in
  node-store order: its result is decided by what \<open>r\<close> reaches.  A node that some other root
  candidate reaches and \<open>r\<close> does not is among the nodes counted in the error message.  The
  witness is the session that adds three nodes and connects the second to the third.
\<close>

theorem save_first_root_origin:
  assumes "s = run addE evs" and "2 \<le> length (nodes s)" and "rootCandidates s = r # c # rest"
  shows "bfs (buildGraph (edges s)) [r] {} = reachable_ids (edges s) r
    \<and> handleSave s =
        (if disconnected_from (edges s) (map node_id (nodes s)) r = []
         then s\<lparr>error := None, successMessage := Some ''Flow saved successfully!''\<rparr>
         else s\<lparr>error := Some (''Cannot save Flow: ''
                  @ show_nat (length (disconnected_from (edges s) (map node_id (nodes s)) r))
                  @ '' node(s) are not connected to the main flow.'')\<rparr>)
    \<and> (\<forall>x \<in> set (map node_id (nodes s)).
          (\<exists>c' \<in> set (c # rest). x \<in> reachable_ids (edges s) c') \<and> x \<notin> reachable_ids (edges s) r
          \<longrightarrow> x \<in> set (disconnected_from (edges s) (map node_id (nodes s)) r)
              \<and> handleSave s = s\<lparr>error := Some (''Cannot save Flow: ''
                  @ show_nat (length (disconnected_from (edges s) (map node_id (nodes s)) r))
                  @ '' node(s) are not connected to the main flow.'')\<rparr>)"
proof -
  from assms(1,3) have ne: "r \<noteq> []" by (simp add: run_root_nonempty)
  have save: "handleSave s =
        (if disconnected_from (edges s) (map node_id (nodes s)) r = []
         then s\<lparr>error := None, successMessage := Some ''Flow saved successfully!''\<rparr>
         else s\<lparr>error := Some (''Cannot save Flow: ''
                  @ show_nat (length (disconnected_from (edges s) (map node_id (nodes s)) r))
                  @ '' node(s) are not connected to the main flow.'')\<rparr>)"
    using save_from_root[OF assms(2,3) ne] by (simp add: disconnectedMessage_def savedMessage_def)
  have "\<forall>x \<in> set (map node_id (nodes s)).
          (\<exists>c' \<in> set (c # rest). x \<in> reachable_ids (edges s) c') \<and> x \<notin> reachable_ids (edges s) r
          \<longrightarrow> x \<in> set (disconnected_from (edges s) (map node_id (nodes s)) r)
              \<and> handleSave s = s\<lparr>error := Some (''Cannot save Flow: ''
                  @ show_nat (length (disconnected_from (edges s) (map node_id (nodes s)) r))
                  @ '' node(s) are not connected to the main flow.'')\<rparr>"
  proof (intro ballI impI)
    fix x
    assume x: "x \<in> set (map node_id (nodes s))"
      and "(\<exists>c' \<in> set (c # rest). x \<in> reachable_ids (edges s) c') \<and> x \<notin> reachable_ids (edges s) r"
    then have "x \<notin> reachable_ids (edges s) r" by simp
    with x have mem: "x \<in> set (disconnected_from (edges s) (map node_id (nodes s)) r)"
      by (simp add: disconnected_from_def)
    then have "disconnected_from (edges s) (map node_id (nodes s)) r \<noteq> []" by auto
    with save mem
    show "x \<in> set (disconnected_from (edges s) (map node_id (nodes s)) r)
              \<and> handleSave s = s\<lparr>error := Some (''Cannot save Flow: ''
                  @ show_nat (length (disconnected_from (edges s) (map node_id (nodes s)) r))
                  @ '' node(s) are not connected to the main flow.'')\<rparr>"
      by simp
  qed
  moreover have "bfs (buildGraph (edges s)) [r] {} = reachable_ids (edges s) r"
    by (rule bfs_buildGraph)
  ultimately show ?thesis using save by blast
qed


lemma bfs_session_two_roots:
  "bfs (buildGraph [mk_edge ''5-2'' ''5-3'']) [''5-1''] {} = {''5-1''}
   \<and> bfs (buildGraph [mk_edge ''5-2'' ''5-3'']) [''5-2''] {} = {''5-2'', ''5-3''}"
  by (simp add: mk_edge_def buildGraph_def graph_add_def neighbors_def insert_commute)

theorem save_first_root_origin_witness:
  "2 \<le> length (nodes (run addEdge [AddTextNode ''a'' 5 0, Render, AddTextNode ''b'' 5 0, Render,
                AddTextNode ''c'' 5 0, Render, Connect (mk_connection ''5-2'' ''5-3'')]))
   \<and> rootCandidates (run addEdge [AddTextNode ''a'' 5 0, Render, AddTextNode ''b'' 5 0, Render,
                AddTextNode ''c'' 5 0, Render, Connect (mk_connection ''5-2'' ''5-3'')])
       = [''5-1'', ''5-2'']
   \<and> ''5-3'' \<in> reachable_ids (edges (run addEdge [AddTextNode ''a'' 5 0, Render,
                AddTextNode ''b'' 5 0, Render, AddTextNode ''c'' 5 0, Render,
                Connect (mk_connection ''5-2'' ''5-3'')])) ''5-2''
   \<and> ''5-3'' \<notin> reachable_ids (edges (run addEdge [AddTextNode ''a'' 5 0, Render,
                AddTextNode ''b'' 5 0, Render, AddTextNode ''c'' 5 0, Render,
                Connect (mk_connection ''5-2'' ''5-3'')])) ''5-1''
   \<and> error (handleSave (run addEdge [AddTextNode ''a'' 5 0, Render, AddTextNode ''b'' 5 0, Render,
                AddTextNode ''c'' 5 0, Render, Connect (mk_connection ''5-2'' ''5-3'')]))
       = Some ''Cannot save Flow: 2 node(s) are not connected to the main flow.''"
proof -
  let ?s = "run addEdge [AddTextNode ''a'' 5 0, Render, AddTextNode ''b'' 5 0, Render,
                AddTextNode ''c'' 5 0, Render, Connect (mk_connection ''5-2'' ''5-3'')]"
  have ids: "map node_id (nodes ?s) = [''5-1'', ''5-2'', ''5-3'']"
    by (simp add: session_two_roots)
  have es: "edges ?s = [mk_edge ''5-2'' ''5-3'']"
    by (simp add: session_two_roots)
  have len: "2 \<le> length (nodes ?s)" by (simp add: session_two_roots)
  have rc: "rootCandidates ?s = [''5-1'', ''5-2'']"
    unfolding rootCandidates_def ids es by (simp add: mk_edge_def)
  note inst = save_first_root_origin[OF refl len rc]
  from inst have "bfs (buildGraph (edges ?s)) [''5-1''] {} = reachable_ids (edges ?s) ''5-1''"
    by (rule conjunct1)
  then have r1: "reachable_ids (edges ?s) ''5-1'' = {''5-1''}"
    unfolding es by (simp only: bfs_session_two_roots)
  have "bfs (buildGraph (edges ?s)) [''5-2''] {} = reachable_ids (edges ?s) ''5-2''"
    by (rule bfs_buildGraph)
  then have r2: "reachable_ids (edges ?s) ''5-2'' = {''5-2'', ''5-3''}"
    unfolding es by (simp only: bfs_session_two_roots)
  have dis: "disconnected_from (edges ?s) (map node_id (nodes ?s)) ''5-1'' = [''5-2'', ''5-3'']"
    unfolding disconnected_from_def r1 ids by simp
  from inst have "handleSave ?s =
        (if disconnected_from (edges ?s) (map node_id (nodes ?s)) ''5-1'' = []
         then ?s\<lparr>error := None, successMessage := Some ''Flow saved successfully!''\<rparr>
         else ?s\<lparr>error := Some (''Cannot save Flow: ''
                  @ show_nat (length (disconnected_from (edges ?s) (map node_id (nodes ?s)) ''5-1''))
                  @ '' node(s) are not connected to the main flow.'')\<rparr>)"
    by blast
  then have "error (handleSave ?s)
       = Some ''Cannot save Flow: 2 node(s) are not connected to the main flow.''"
    unfolding dis by (simp add: show_nat_digit digit_char_def)
  moreover have "''5-3'' \<in> reachable_ids (edges ?s) ''5-2''" unfolding r2 by simp
  moreover have "''5-3'' \<notin> reachable_ids (edges ?s) ''5-1''" unfolding r1 by simp
  ultimately show ?thesis using len rc by blast
qed

end
